theory Spec2Isabelle
  imports Complex_Main "HOL-Library.Log_Nat"
begin

unbundle bit_operations_syntax

section \<open>scripts/wifimon.py: a curses Wi-Fi monitor\<close>

text \<open>
  The script polls \<^verbatim>\<open>psutil.wifi_ifaces()\<close>, \<^verbatim>\<open>psutil.net_io_counters()\<close> and
  \<^verbatim>\<open>psutil.net_if_addrs()\<close> five times a second and writes what they return to a curses
  window, one line per \<^verbatim>\<open>printl\<close> call. The embedding below follows the script function
  by function. The two globals of the script (\<^verbatim>\<open>lineno\<close> and the window \<^verbatim>\<open>win\<close>) are the
  fields of an explicit state record that every function takes and returns; a Python
  exception is the \<open>Inl\<close> branch of a sum. Python integers are \<open>int\<close>, Python floats are
  the rationals that binary64 can represent, with the rounding written out.
\<close>

subsection \<open>Exceptions\<close>

datatype exn =
    CursesError
  | KeyboardInterrupt
  | SystemExit string
  | KeyError string
  | OverflowError

subsection \<open>Binary64 arithmetic\<close>

text \<open>
  \<^verbatim>\<open>get_dashes\<close> computes \<^verbatim>\<open>int(float(perc) / 10 * 4)\<close> in floating point. A finite float
  is modelled by the rational it denotes. \<open>round64\<close> rounds a rational to the nearest
  binary64 value, ties to even: the exponent is \<open>\<lfloor>log\<^sub>2 \<bar>x\<bar>\<rfloor>\<close>, not below \<open>-1022\<close>
  (subnormal numbers share the smallest exponent), and the significand has 53 bits.
  \<open>fl\<close> is a rounded operation's result: \<open>None\<close> when the rounded value leaves the
  finite range, where the hardware returns an infinity.
\<close>

definition round_half_even :: "rat \<Rightarrow> int" where
  "round_half_even y =
     (let n = \<lfloor>y\<rfloor>; d = y - of_int n
      in if d < 1 / 2 then n
         else if 1 / 2 < d then n + 1
         else if even n then n else n + 1)"

definition ilog2 :: "rat \<Rightarrow> int" where
  "ilog2 x = (if 1 \<le> x then bitlen \<lfloor>x\<rfloor> - 1 else - bitlen (\<lceil>1 / x\<rceil> - 1))"

definition round64 :: "rat \<Rightarrow> rat" where
  "round64 x =
     (if x = 0 then 0
      else let e = max (ilog2 \<bar>x\<bar>) (- 1022);
               q = 2 powi (e - 52)
           in of_int (round_half_even (x / q)) * q)"

definition fl :: "rat \<Rightarrow> rat option" where
  "fl x = (let r = round64 x in if \<bar>r\<bar> < 2 ^ 1024 then Some r else None)"

text \<open>\<^verbatim>\<open>float(n)\<close> for a Python int: correctly rounded, \<^verbatim>\<open>OverflowError\<close> when too large.\<close>

definition float_of_int :: "int \<Rightarrow> exn + rat" where
  "float_of_int n = (case fl (of_int n) of None \<Rightarrow> Inl OverflowError | Some x \<Rightarrow> Inr x)"

text \<open>\<^verbatim>\<open>int(x)\<close> for a finite float: truncation towards zero.\<close>

definition int_of_float :: "rat \<Rightarrow> int" where
  "int_of_float x = (if 0 \<le> x then \<lfloor>x\<rfloor> else \<lceil>x\<rceil>)"

text \<open>
  \<^verbatim>\<open>c * n\<close> for a one-character string: empty when \<open>n \<le> 0\<close>, \<^verbatim>\<open>OverflowError\<close> when \<open>n\<close>
  does not fit the index type (64-bit CPython). Running out of memory is not modelled.
\<close>

definition str_repeat :: "char \<Rightarrow> int \<Rightarrow> exn + string" where
  "str_repeat c n = (if 2 ^ 63 \<le> n then Inl OverflowError else Inr (replicate (nat n) c))"

text \<open>
  \<^verbatim>\<open>
  def get_dashes(perc):
      dashes = "=" * int((float(perc) / 10 * 4))
      empty_dashes = " " * (40 - len(dashes))
      return dashes, empty_dashes
  \<close>
  An infinite intermediate result would stay infinite and make \<^verbatim>\<open>int()\<close> raise
  \<^verbatim>\<open>OverflowError\<close>, which is what the \<open>None\<close> branches return.
\<close>

definition get_dashes :: "int \<Rightarrow> exn + string \<times> string" where
  "get_dashes perc =
     (case float_of_int perc of
        Inl e \<Rightarrow> Inl e
      | Inr f \<Rightarrow>
         (case fl (f / 10) of
            None \<Rightarrow> Inl OverflowError
          | Some g \<Rightarrow>
             (case fl (g * 4) of
                None \<Rightarrow> Inl OverflowError
              | Some h \<Rightarrow>
                 (case str_repeat CHR ''='' (int_of_float h) of
                    Inl e \<Rightarrow> Inl e
                  | Inr dashes \<Rightarrow>
                     (case str_repeat CHR '' '' (40 - int (length dashes)) of
                        Inl e \<Rightarrow> Inl e
                      | Inr empty_dashes \<Rightarrow> Inr (dashes, empty_dashes))))))"

subsection \<open>String formatting\<close>

text \<open>\<^verbatim>\<open>"%s" % n\<close> for an int: its decimal digits, with a minus sign when negative.\<close>

definition digit_char :: "nat \<Rightarrow> char" where
  "digit_char d = char_of (48 + d)"

fun str_nat :: "nat \<Rightarrow> string" where
  "str_nat n = (if n < 10 then [digit_char n] else str_nat (n div 10) @ [digit_char (n mod 10)])"

declare str_nat.simps [simp del]

definition str_int :: "int \<Rightarrow> string" where
  "str_int i = (if i < 0 then CHR ''-'' # str_nat (nat (- i)) else str_nat (nat i))"

text \<open>
  \<^verbatim>\<open>'{0:,}'.format(n)\<close>: the digits in groups of three from the right, separated by
  commas. \<open>group3\<close> works on the reversed digit string.
\<close>

fun group3 :: "string \<Rightarrow> string" where
  "group3 (a # b # c # d # ds) = a # b # c # CHR '','' # group3 (d # ds)"
| "group3 ds = ds"

definition format_comma :: "int \<Rightarrow> string" where
  "format_comma i =
     (if i < 0 then CHR ''-'' # rev (group3 (rev (str_nat (nat (- i)))))
      else rev (group3 (rev (str_nat (nat i)))))"

text \<open>\<^verbatim>\<open>"%6s" % s\<close>: right-justified in a field of at least six characters.\<close>

definition rjust :: "nat \<Rightarrow> string \<Rightarrow> string" where
  "rjust n s = replicate (n - length s) CHR '' '' @ s"

subsection \<open>Reading a rendered counter back\<close>

text \<open>
  The script never parses what it prints. The round trip of the comma-grouped byte
  counts is stated with the two operations the specification names: removing the
  commas, and Python's \<^verbatim>\<open>int()\<close> on the rest (surrounding white space is dropped, a
  sign may lead, and every other character must be a decimal digit; \<open>None\<close> stands for
  \<^verbatim>\<open>ValueError\<close>).
\<close>

definition strip_commas :: "string \<Rightarrow> string" where
  "strip_commas s = filter (\<lambda>c. c \<noteq> CHR '','') s"

definition is_digit :: "char \<Rightarrow> bool" where
  "is_digit c \<longleftrightarrow> 48 \<le> (of_char c :: nat) \<and> (of_char c :: nat) \<le> 57"

definition digit_val :: "char \<Rightarrow> nat" where
  "digit_val c = of_char c - 48"

definition is_space :: "char \<Rightarrow> bool" where
  "is_space c \<longleftrightarrow> c = CHR '' '' \<or> (9 \<le> (of_char c :: nat) \<and> (of_char c :: nat) \<le> 13)"

definition py_strip :: "string \<Rightarrow> string" where
  "py_strip s = rev (dropWhile is_space (rev (dropWhile is_space s)))"

fun parse_digits :: "nat \<Rightarrow> string \<Rightarrow> nat option" where
  "parse_digits acc [] = Some acc"
| "parse_digits acc (c # cs) =
     (if is_digit c then parse_digits (10 * acc + digit_val c) cs else None)"

definition parse_nat :: "string \<Rightarrow> nat option" where
  "parse_nat s = (if s = [] then None else parse_digits 0 s)"

definition parse_int :: "string \<Rightarrow> int option" where
  "parse_int s =
     (case py_strip s of
        [] \<Rightarrow> None
      | c # cs \<Rightarrow>
          if c = CHR ''-'' then map_option (\<lambda>n. - int n) (parse_nat cs)
          else if c = CHR ''+'' then map_option int (parse_nat cs)
          else map_option int (parse_nat (c # cs)))"

subsection \<open>The curses window\<close>

text \<open>
  curses is an external library. Its state is modelled by the size of the terminal
  and by the sequence of calls the script has made on it, oldest first. A call to
  \<^verbatim>\<open>addstr\<close> raises \<^verbatim>\<open>curses.error\<close> when the string does not fit between the given
  position and the lower right corner of the window (the cursor cannot advance past
  the last cell); the attempted call is recorded either way. Strings are taken to hold
  printable one-cell characters. Every other curses call is assumed to succeed.
\<close>

datatype curses_call =
    Initscr
  | Start_color
  | Use_default_colors
  | Init_pair int int int
  | Endwin
  | Nodelay int
  | Keypad int
  | Nocbreak
  | Echo
  | Addstr int int string int
  | Refresh
  | Getch
  | Sleep

record world =
  lineno :: int
  maxy :: int
  maxx :: int
  COLORS :: nat
  calls :: "curses_call list"

type_synonym 'a action = "world \<Rightarrow> (exn + 'a) \<times> world"

definition addstr_fits :: "world \<Rightarrow> int \<Rightarrow> int \<Rightarrow> string \<Rightarrow> bool" where
  "addstr_fits w y x s \<longleftrightarrow>
     0 \<le> y \<and> y < maxy w \<and> 0 \<le> x \<and> x < maxx w \<and>
     y * maxx w + x + int (length s) < maxy w * maxx w"

definition addstr :: "int \<Rightarrow> int \<Rightarrow> string \<Rightarrow> int \<Rightarrow> unit action" where
  "addstr y x s attr w =
     (if addstr_fits w y x s then Inr () else Inl CursesError,
      w\<lparr>calls := calls w @ [Addstr y x s attr]\<rparr>)"

definition win_refresh :: "world \<Rightarrow> world" where
  "win_refresh w = w\<lparr>calls := calls w @ [Refresh]\<rparr>"

text \<open>The attribute constants of ncurses, and \<^verbatim>\<open>curses.color_pair\<close>.\<close>

definition A_BOLD :: int where
  "A_BOLD = 2 ^ 21"

definition A_UNDERLINE :: int where
  "A_UNDERLINE = 2 ^ 17"

definition color_pair :: "int \<Rightarrow> int" where
  "color_pair n = push_bit 8 n AND 65280"

text \<open>
  \<^verbatim>\<open>
  colors_map = dict(green=35, red=10, blue=5)
  \<close>
\<close>

definition colors_map :: "string \<rightharpoonup> int" where
  "colors_map = [''green'' \<mapsto> 35, ''red'' \<mapsto> 10, ''blue'' \<mapsto> 5]"

subsection \<open>Sequencing of actions\<close>

text \<open>
  Statements run in order and the first exception ends the sequence:
  \<open>bind_m\<close> passes a value on, \<open>run_all\<close> runs a list of statements, \<open>lift\<close> is a
  computation that does not touch the state.
\<close>

definition lift :: "exn + 'a \<Rightarrow> 'a action" where
  "lift r w = (r, w)"

definition bind_m :: "'a action \<Rightarrow> ('a \<Rightarrow> 'b action) \<Rightarrow> 'b action" where
  "bind_m m f w = (case m w of (Inl e, w') \<Rightarrow> (Inl e, w') | (Inr x, w') \<Rightarrow> f x w')"

fun run_all :: "unit action list \<Rightarrow> unit action" where
  "run_all [] w = (Inr (), w)"
| "run_all (m # ms) w = (case m w of (Inl e, w') \<Rightarrow> (Inl e, w') | (Inr u, w') \<Rightarrow> run_all ms w')"

subsection \<open>printl and print_title\<close>

text \<open>
  \<^verbatim>\<open>
  def printl(line, color=None, bold=False, underline=False):
      global lineno
      try:
          flags = 0
          if color:
              flags |= curses.color_pair(colors_map[color])
          if bold:
              flags |= curses.A_BOLD
          if underline:
              flags |= curses.A_UNDERLINE
          win.addstr(lineno, 0, line, flags)
      except curses.error:
          lineno = 0
          win.refresh()
          raise
      else:
          lineno += 1
  \<close>
  \<open>printl_flags\<close> is the computation of \<^verbatim>\<open>flags\<close>: a colour that is \<^verbatim>\<open>None\<close> or the empty
  string is false, and a colour that is not a key of \<^verbatim>\<open>colors_map\<close> raises \<^verbatim>\<open>KeyError\<close>,
  which the \<^verbatim>\<open>except\<close> clause does not catch.
\<close>

definition printl_flags :: "string option \<Rightarrow> bool \<Rightarrow> bool \<Rightarrow> exn + int" where
  "printl_flags color bold underline =
     (case (case color of
              None \<Rightarrow> Inr 0
            | Some c \<Rightarrow>
                if c = [] then Inr 0
                else (case colors_map c of
                        None \<Rightarrow> Inl (KeyError c)
                      | Some n \<Rightarrow> Inr (0 OR color_pair n))) of
        Inl e \<Rightarrow> Inl e
      | Inr f1 \<Rightarrow>
          (let f2 = (if bold then f1 OR A_BOLD else f1);
               f3 = (if underline then f2 OR A_UNDERLINE else f2)
           in Inr f3))"

definition printl :: "string \<Rightarrow> string option \<Rightarrow> bool \<Rightarrow> bool \<Rightarrow> unit action" where
  "printl line color bold underline w =
     (case printl_flags color bold underline of
        Inl e \<Rightarrow> (Inl e, w)
      | Inr flags \<Rightarrow>
          (case addstr (lineno w) 0 line flags w of
             (Inl e, w1) \<Rightarrow>
               if e = CursesError then (Inl e, win_refresh (w1\<lparr>lineno := 0\<rparr>))
               else (Inl e, w1)
           | (Inr u, w1) \<Rightarrow> (Inr (), w1\<lparr>lineno := lineno w1 + 1\<rparr>)))"

text \<open>
  \<^verbatim>\<open>
  def print_title(line):
      printl(line, color="blue", bold=True, underline=True)
  \<close>
\<close>

definition print_title :: "string \<Rightarrow> unit action" where
  "print_title line = printl line (Some ''blue'') True True"

subsection \<open>What the statistics source returns\<close>

text \<open>
  The psutil functions are not part of the script. One refresh cycle reads one
  snapshot of what they return: the interfaces in the order \<^verbatim>\<open>items()\<close> yields them,
  the per-interface traffic counters and the per-interface address lists.
  \<^verbatim>\<open>bytes2human\<close> (from \<^verbatim>\<open>psutil._common\<close>) is a parameter of the rendering functions.
\<close>

record wifi_info =
  proto :: string
  essid :: string
  quality_percent :: int
  signal :: int
  signal_percent :: int
  bssid :: string
  mode :: string
  freq :: int
  txpower :: int
  power_save :: bool
  beacons :: int
  discard_nwid :: int
  discard_crypt :: int
  discard_frag :: int
  discard_retry :: int
  discard_misc :: int

record snetio =
  bytes_sent :: int
  bytes_recv :: int

record snicaddr =
  family :: int
  address :: string

record snapshot =
  wifi_ifaces :: "(string \<times> wifi_info) list"
  net_io_counters :: "(string \<times> snetio) list"
  net_if_addrs :: "(string \<times> snicaddr list) list"

text \<open>\<^verbatim>\<open>d[k]\<close> on a dictionary: \<^verbatim>\<open>KeyError\<close> when the key is missing.\<close>

definition dict_item :: "(string \<times> 'a) list \<Rightarrow> string \<Rightarrow> exn + 'a" where
  "dict_item d k = (case map_of d k of None \<Rightarrow> Inl (KeyError k) | Some v \<Rightarrow> Inr v)"

text \<open>
  \<^verbatim>\<open>
  af_map = {
      socket.AF_INET: 'IPv4',
      socket.AF_INET6: 'IPv6',
      psutil.AF_LINK: 'MAC',
  }
  \<close>
  with the values the three constants have on Linux, the platform that has
  \<^verbatim>\<open>wifi_ifaces\<close> (\<^verbatim>\<open>psutil.AF_LINK\<close> is \<^verbatim>\<open>socket.AF_PACKET\<close> there).
\<close>

definition AF_INET :: int where
  "AF_INET = 2"

definition AF_INET6 :: int where
  "AF_INET6 = 10"

definition AF_LINK :: int where
  "AF_LINK = 17"

definition af_map :: "int \<rightharpoonup> string" where
  "af_map = [AF_INET \<mapsto> ''IPv4'', AF_INET6 \<mapsto> ''IPv6'', AF_LINK \<mapsto> ''MAC'']"

text \<open>
  \<^verbatim>\<open>af_map.get(family, family)\<close> is a label or the family itself, and \<^verbatim>\<open>"%s"\<close> renders
  either.
\<close>

definition af_get :: "int \<Rightarrow> string + int" where
  "af_get fam = (case af_map fam of None \<Rightarrow> Inr fam | Some label \<Rightarrow> Inl label)"

definition pct_s :: "string + int \<Rightarrow> string" where
  "pct_s v = (case v of Inl s \<Rightarrow> s | Inr n \<Rightarrow> str_int n)"

subsection \<open>refresh_window\<close>

text \<open>
  The body of the loop over the addresses of an interface:
  \<^verbatim>\<open>
  proto = af_map.get(addr.family, addr.family)
  printl("    %s: %s" % (proto, addr.address))
  \<close>
\<close>

definition print_addr :: "snicaddr \<Rightarrow> unit action" where
  "print_addr addr =
     (let proto = af_get (family addr)
      in printl (''    '' @ pct_s proto @ '': '' @ address addr) None False False)"

text \<open>
  The body of the loop over the interfaces (lines 116 to 156 of the script), statement
  by statement. The counters and the addresses are looked up where the script looks
  them up, after the title of their section has been printed.
\<close>

definition refresh_iface :: "(int \<Rightarrow> string) \<Rightarrow> snapshot \<Rightarrow> string \<Rightarrow> wifi_info \<Rightarrow> unit action" where
  "refresh_iface bytes2human s ifname info =
     run_all
      [print_title ''Interface'',
       printl (''    '' @ ifname @ '' ('' @ proto info @ '')'') None False False,
       printl (''    SSID: '' @ essid info) None False False,
       print_title ''Levels'',
       printl (''    Link quality: '' @ str_int (quality_percent info) @ ''%'') None False False,
       bind_m (lift (get_dashes (quality_percent info))) (\<lambda>(dashes, empty_dashes).
         printl (''    ['' @ dashes @ empty_dashes @ '']'')
           (Some (if 50 \<le> quality_percent info then ''green'' else ''red'')) True False),
       printl (''    Signal level: '' @ str_int (signal info) @ '' dBm (''
                 @ str_int (signal_percent info) @ ''%)'') None False False,
       bind_m (lift (get_dashes (signal_percent info))) (\<lambda>(dashes, empty_dashes).
         printl (''    ['' @ dashes @ empty_dashes @ '']'')
           (Some (if 50 \<le> signal_percent info then ''green'' else ''red'')) True False),
       print_title ''Statistics'',
       bind_m (lift (dict_item (net_io_counters s) ifname)) (\<lambda>ioc.
         run_all
          [printl (''    RX (recv): '' @ rjust 6 (bytes2human (bytes_recv ioc)) @ '' (''
                     @ rjust 6 (format_comma (bytes_recv ioc)) @ '')'') None False False,
           printl (''    TX (sent): '' @ rjust 6 (bytes2human (bytes_sent ioc)) @ '' (''
                     @ rjust 6 (format_comma (bytes_sent ioc)) @ '')'') None False False]),
       print_title ''Info'',
       printl (''    Connected to: '' @ bssid info) None False False,
       printl (''    Mode: '' @ mode info) None False False,
       printl (''    Freq: '' @ str_int (freq info) @ '' MHz'') None False False,
       printl (''    TX-Power: '' @ str_int (txpower info) @ '' dBm'') None False False,
       printl (''    Power save: '' @ (if power_save info then ''on'' else ''off''))
         None False False,
       printl (''    Beacons: '' @ str_int (beacons info) @ '', Nwid: ''
                 @ str_int (discard_nwid info) @ '', Crypt: ''
                 @ str_int (discard_crypt info)) None False False,
       printl (''    Frag: '' @ str_int (discard_frag info) @ '', Retry: ''
                 @ str_int (discard_retry info) @ '', Misc: ''
                 @ str_int (discard_misc info)) None False False,
       print_title (''Addresses ('' @ ifname @ '')''),
       bind_m (lift (dict_item (net_if_addrs s) ifname)) (\<lambda>addrs.
         run_all (map print_addr addrs))]"

text \<open>
  \<^verbatim>\<open>
  def refresh_window():
      for ifname, info in psutil.wifi_ifaces().items():
          ...
      printl("")
      win.refresh()
  \<close>
\<close>

definition refresh_window :: "(int \<Rightarrow> string) \<Rightarrow> snapshot \<Rightarrow> unit action" where
  "refresh_window bytes2human s =
     run_all
      (map (\<lambda>(ifname, info). refresh_iface bytes2human s ifname info) (wifi_ifaces s)
       @ [printl [] None False False,
          (\<lambda>w. (Inr (), win_refresh w))])"

subsection \<open>setup, tear_down and main\<close>

text \<open>
  \<^verbatim>\<open>
  def setup():
      curses.start_color()
      curses.use_default_colors()
      for i in range(0, curses.COLORS):
          curses.init_pair(i + 1, i, -1)
      curses.endwin()
      win.nodelay(1)

  def tear_down():
      win.keypad(0)
      curses.nocbreak()
      curses.echo()
      curses.endwin()
  \<close>
\<close>

definition setup_curses :: "world \<Rightarrow> world" where
  "setup_curses w =
     w\<lparr>calls := calls w @ [Start_color, Use_default_colors]
                  @ map (\<lambda>i. Init_pair (int i + 1) (int i) (- 1)) [0..<COLORS w]
                  @ [Endwin, Nodelay 1]\<rparr>"

definition tear_down :: "world \<Rightarrow> world" where
  "tear_down w = w\<lparr>calls := calls w @ [Keypad 0, Nocbreak, Echo, Endwin]\<rparr>"

text \<open>
  The input of one iteration of the loop: the key \<^verbatim>\<open>getch\<close> returns (\<open>-1\<close> when none
  is pending), the snapshot the statistics source returns during the iteration, and
  whether an interrupt arrives, and where: while \<^verbatim>\<open>getch\<close> runs, before
  \<^verbatim>\<open>refresh_window\<close> starts, or during the sleep. The list of these inputs is the fuel
  of the loop: a loop that has consumed all of them is still running.
\<close>

datatype sigpoint = At_getch | At_refresh | At_sleep

record tick =
  key :: int
  sigint :: "sigpoint option"
  snap :: snapshot

datatype run = Running world | Returned "exn + unit" world

definition ord_q :: int where
  "ord_q = 113"

text \<open>
  \<^verbatim>\<open>
  while True:
      if win.getch() == ord('q'):
          break
      refresh_window()
      lineno = 0
      time.sleep(INTERVAL)
  \<close>
\<close>

fun loop :: "(int \<Rightarrow> string) \<Rightarrow> tick list \<Rightarrow> world \<Rightarrow> run" where
  "loop bytes2human [] w = Running w"
| "loop bytes2human (t # ts) w =
     (let w1 = w\<lparr>calls := calls w @ [Getch]\<rparr>
      in if sigint t = Some At_getch then Returned (Inl KeyboardInterrupt) w1
         else if key t = ord_q then Returned (Inr ()) w1
         else if sigint t = Some At_refresh then Returned (Inl KeyboardInterrupt) w1
         else (case refresh_window bytes2human (snap t) w1 of
                 (Inl e, w2) \<Rightarrow> Returned (Inl e) w2
               | (Inr u, w2) \<Rightarrow>
                   (let w3 = w2\<lparr>lineno := 0\<rparr>;
                        w4 = w3\<lparr>calls := calls w3 @ [Sleep]\<rparr>
                    in if sigint t = Some At_sleep then Returned (Inl KeyboardInterrupt) w4
                       else loop bytes2human ts w4)))"

text \<open>
  What the script asks of the platform: whether curses can be imported, whether psutil
  has \<^verbatim>\<open>wifi_ifaces\<close>, what \<^verbatim>\<open>wifi_ifaces()\<close> returns when \<^verbatim>\<open>main\<close> starts, the
  \<^verbatim>\<open>bytes2human\<close> function and the terminal.
\<close>

record platform =
  has_curses :: bool
  has_wifi_ifaces :: bool
  startup_ifaces :: "(string \<times> wifi_info) list"
  bytes2human :: "int \<Rightarrow> string"
  term_lines :: int
  term_cols :: int
  term_colors :: nat

text \<open>
  \<^verbatim>\<open>
  def main():
      global lineno
      if not hasattr(psutil, "wifi_ifaces"):
          sys.exit('platform not supported')
      if not psutil.wifi_ifaces():
          sys.exit('no Wi-Fi interfaces installed')
      setup()
      try:
          while True:
              ...
      except (KeyboardInterrupt, SystemExit):
          pass
      finally:
          tear_down()
  \<close>
\<close>

definition main :: "platform \<Rightarrow> tick list \<Rightarrow> world \<Rightarrow> run" where
  "main pf ticks w =
     (if \<not> has_wifi_ifaces pf then Returned (Inl (SystemExit ''platform not supported'')) w
      else if startup_ifaces pf = [] then
        Returned (Inl (SystemExit ''no Wi-Fi interfaces installed'')) w
      else (case loop (bytes2human pf) ticks (setup_curses w) of
              Running w' \<Rightarrow> Running w'
            | Returned r w' \<Rightarrow>
                Returned (case r of
                            Inl KeyboardInterrupt \<Rightarrow> Inr ()
                          | Inl (SystemExit a) \<Rightarrow> Inr ()
                          | Inl e \<Rightarrow> Inl e
                          | Inr u \<Rightarrow> Inr ())
                         (tear_down w')))"

text \<open>
  The script from its first line: the import of curses, then the module-level
  \<^verbatim>\<open>win = curses.initscr()\<close> and \<^verbatim>\<open>lineno = 0\<close>, then \<^verbatim>\<open>main()\<close>.
\<close>

definition program :: "platform \<Rightarrow> tick list \<Rightarrow> run" where
  "program pf ticks =
     (let w0 = \<lparr>lineno = 0, maxy = term_lines pf, maxx = term_cols pf,
                COLORS = term_colors pf, calls = []\<rparr>
      in if \<not> has_curses pf then Returned (Inl (SystemExit ''platform not supported'')) w0
         else main pf ticks (w0\<lparr>calls := [Initscr]\<rparr>))"

text \<open>
  The exit status of the process: 0 when the script runs to its end, 1 when an
  exception leaves it (\<^verbatim>\<open>sys.exit\<close> with a string prints the string to the error stream
  and exits with 1; any other exception prints a traceback). A script that is still
  running has none.
\<close>

definition exit_status :: "run \<Rightarrow> nat option" where
  "exit_status r =
     (case r of
        Running w \<Rightarrow> None
      | Returned (Inr u) w \<Rightarrow> Some 0
      | Returned (Inl e) w \<Rightarrow> Some 1)"

definition stderr_message :: "run \<Rightarrow> string option" where
  "stderr_message r =
     (case r of
        Returned (Inl (SystemExit msg)) w \<Rightarrow> Some msg
      | _ \<Rightarrow> None)"

section \<open>Properties of the binary64 model\<close>

subsection \<open>Rounding\<close>

lemma rhe_error: "\<bar>of_int (round_half_even y) - y\<bar> \<le> 1 / 2"
proof -
  have "of_int \<lfloor>y\<rfloor> \<le> y" "y < of_int \<lfloor>y\<rfloor> + 1" by linarith+
  then show ?thesis
    by (auto simp: round_half_even_def Let_def)
qed

lemma rhe_int: "round_half_even (of_int k) = k"
  by (simp add: round_half_even_def)

lemma powi_nat: "0 \<le> n \<Longrightarrow> (2::rat) powi n = 2 ^ nat n"
  by (simp add: power_int_def)

lemma powi_neg: "0 \<le> n \<Longrightarrow> (2::rat) powi (- n) = 1 / 2 ^ nat n"
  by (simp add: power_int_def field_simps)

lemma ilog2_lower: assumes "0 < x" shows "2 powi (ilog2 x) \<le> x"
proof (cases "1 \<le> x")
  case True
  then have m: "0 < \<lfloor>x\<rfloor>" by linarith
  from bitlen_bounds[OF m] have "2 ^ nat (bitlen \<lfloor>x\<rfloor> - 1) \<le> \<lfloor>x\<rfloor>" by simp
  then have "(of_int (2 ^ nat (bitlen \<lfloor>x\<rfloor> - 1)) :: rat) \<le> of_int \<lfloor>x\<rfloor>"
    by (simp only: of_int_le_iff)
  also have "\<dots> \<le> x" by simp
  finally have "(2::rat) ^ nat (bitlen \<lfloor>x\<rfloor> - 1) \<le> x" by simp
  moreover have "0 \<le> bitlen \<lfloor>x\<rfloor> - 1" using m by (simp add: bitlen_alt_def)
  ultimately show ?thesis using True by (simp add: ilog2_def powi_nat)
next
  case False
  define m where "m = \<lceil>1 / x\<rceil>"
  define n where "n = bitlen (m - 1)"
  have n0: "0 \<le> n" by (simp add: n_def bitlen_nonneg)
  have "bitlen (m - 1) \<le> n" by (simp add: n_def)
  then have "m - 1 < 2 ^ nat n" by (simp add: bitlen_le_iff_power)
  then have "m \<le> 2 ^ nat n" by simp
  then have "(of_int m :: rat) \<le> of_int (2 ^ nat n)" by (simp only: of_int_le_iff)
  then have "(of_int m :: rat) \<le> 2 ^ nat n" by simp
  moreover have "1 / x \<le> of_int m" by (simp add: m_def)
  ultimately have "1 / x \<le> 2 ^ nat n" by linarith
  then have "1 / 2 ^ nat n \<le> x" using assms
    by (simp add: field_simps)
  then show ?thesis using False n0 by (simp add: ilog2_def powi_neg m_def n_def)
qed

lemma ilog2_upper: assumes "0 < x" shows "x < 2 powi (ilog2 x + 1)"
proof (cases "1 \<le> x")
  case True
  then have m: "0 < \<lfloor>x\<rfloor>" by linarith
  have b0: "0 \<le> bitlen \<lfloor>x\<rfloor>" by (simp add: bitlen_nonneg)
  from bitlen_bounds[OF m] have "\<lfloor>x\<rfloor> + 1 \<le> 2 ^ nat (bitlen \<lfloor>x\<rfloor>)" by simp
  then have "(of_int (\<lfloor>x\<rfloor> + 1) :: rat) \<le> of_int (2 ^ nat (bitlen \<lfloor>x\<rfloor>))"
    by (simp only: of_int_le_iff)
  moreover have "x < of_int (\<lfloor>x\<rfloor> + 1)" by simp linarith
  ultimately have "x < 2 ^ nat (bitlen \<lfloor>x\<rfloor>)" by simp
  then show ?thesis using True b0 by (simp add: ilog2_def powi_nat)
next
  case False
  then have x1: "x < 1" by simp
  define m where "m = \<lceil>1 / x\<rceil>"
  define n where "n = bitlen (m - 1)"
  have "1 < 1 / x" using assms x1 by (simp add: field_simps)
  then have m2: "2 \<le> m" unfolding m_def by linarith
  then have m1: "0 < m - 1" by simp
  then have n1: "1 \<le> n" unfolding n_def by (simp add: bitlen_alt_def)
  from bitlen_bounds[OF m1] have "2 ^ nat (n - 1) \<le> m - 1" by (simp add: n_def)
  then have "(of_int (2 ^ nat (n - 1)) :: rat) \<le> of_int (m - 1)" by (simp only: of_int_le_iff)
  moreover have "of_int (m - 1) < 1 / x" unfolding m_def by simp linarith
  ultimately have "2 ^ nat (n - 1) < 1 / x" by simp
  then have "x < 1 / 2 ^ nat (n - 1)" using assms by (simp add: field_simps)
  moreover have "ilog2 x + 1 = - (n - 1)" using False by (simp add: ilog2_def m_def n_def)
  ultimately show ?thesis using n1 powi_neg[of "n - 1"] by simp
qed


lemma powi_pos: "0 < (2::rat) powi n"
  by (simp add: zero_less_power_int)

lemma powi_add: "(2::rat) powi (a + b) = 2 powi a * 2 powi b"
  by (simp add: power_int_add)

lemma powi_less_iff: "(2::rat) powi m < 2 powi n \<longleftrightarrow> m < n"
proof
  assume l: "(2::rat) powi m < 2 powi n"
  show "m < n"
  proof (rule ccontr)
    assume "\<not> m < n"
    then have "n \<le> m" by simp
    then have "(2::rat) powi n \<le> 2 powi m" by (rule power_int_increasing) simp
    with l show False by simp
  qed
next
  assume "m < n"
  then show "(2::rat) powi m < 2 powi n" by (rule power_int_strict_increasing) simp
qed

lemma round64_exact:
  assumes x: "x = of_int k * 2 powi j" and k: "\<bar>k\<bar> < 2 ^ 53" and j: "- 1074 \<le> j"
  shows "round64 x = x"
proof (cases "x = 0")
  case True
  then show ?thesis by (simp add: round64_def)
next
  case False
  define e where "e = max (ilog2 \<bar>x\<bar>) (- 1022)"
  have xpos: "0 < \<bar>x\<bar>" using False by simp
  have "2 powi (ilog2 \<bar>x\<bar>) \<le> \<bar>x\<bar>" by (rule ilog2_lower[OF xpos])
  also have "\<bar>x\<bar> = of_int \<bar>k\<bar> * 2 powi j"
    using powi_pos[of j] by (simp add: x abs_mult)
  also have "\<dots> < of_int (2 ^ 53) * 2 powi j"
    using k powi_pos[of j] by (simp only: mult_less_cancel_right_pos of_int_less_iff)
  also have "\<dots> = 2 powi (53 + j)"
    by (simp add: powi_add[of 53 j])
  finally have "ilog2 \<bar>x\<bar> < 53 + j"
    by (simp only: powi_less_iff)
  then have ej: "e - 52 \<le> j" using j by (simp add: e_def)
  define d where "d = nat (j - (e - 52))"
  have "2 powi j = (2::rat) powi (e - 52) * 2 ^ d"
  proof -
    have "j = (e - 52) + int d" using ej by (simp add: d_def)
    then have "(2::rat) powi j = 2 powi ((e - 52) + int d)" by (rule arg_cong)
    also have "\<dots> = 2 powi (e - 52) * 2 powi (int d)" by (rule powi_add)
    finally show ?thesis by simp
  qed
  then have "x / 2 powi (e - 52) = of_int (k * 2 ^ d)"
    using powi_pos[of "e - 52"] by (simp add: x)
  then have "of_int (round_half_even (x / 2 powi (e - 52))) * 2 powi (e - 52) = x"
    using powi_pos[of "e - 52"] by (simp only: rhe_int) (simp add: field_simps)
  then show ?thesis using False by (simp add: round64_def Let_def e_def)
qed

lemma round64_grid:
  assumes "0 < x"
  shows "\<exists>k j. round64 x = of_int k * 2 powi j \<and> 0 \<le> k \<and> k \<le> 2 ^ 53 \<and> - 1074 \<le> j
           \<and> \<bar>round64 x - x\<bar> \<le> 2 powi j / 2
           \<and> (2 powi j \<le> x * 2 powi (- 52) \<or> j = - 1074)"
proof -
  define e where "e = max (ilog2 \<bar>x\<bar>) (- 1022)"
  define q :: rat where "q = 2 powi (e - 52)"
  define k where "k = round_half_even (x / q)"
  have q0: "0 < q" by (simp add: q_def powi_pos)
  have r: "round64 x = of_int k * q"
    using assms by (simp add: round64_def Let_def e_def q_def k_def)
  have ax: "\<bar>x\<bar> = x" using assms by simp
  have "x < 2 powi (ilog2 x + 1)" by (rule ilog2_upper[OF assms])
  also have "\<dots> \<le> 2 powi (e + 1)" by (rule power_int_increasing) (simp_all add: e_def ax)
  also have "\<dots> = 2 ^ 53 * q" 
  proof -
    have "e + 1 = 53 + (e - 52)" by simp
    then have "(2::rat) powi (e + 1) = 2 powi (53 + (e - 52))" by (rule arg_cong)
    also have "\<dots> = 2 powi 53 * 2 powi (e - 52)" by (rule powi_add)
    finally show ?thesis by (simp add: q_def)
  qed
  finally have "x / q < 2 ^ 53" using q0 by (simp add: field_simps)
  moreover have "0 < x / q" using assms q0 by simp
  moreover have err: "\<bar>of_int k - x / q\<bar> \<le> 1 / 2" unfolding k_def by (rule rhe_error)
  ultimately have "of_int k < (2 ^ 53 + 1 :: rat)" "(- 1 :: rat) < of_int k" by linarith+
  then have "of_int k < (of_int (2 ^ 53 + 1) :: rat)" "(of_int (- 1) :: rat) < of_int k" by simp_all
  then have kb: "k < 2 ^ 53 + 1" "- 1 < k" by (simp_all only: of_int_less_iff)
  have "\<bar>of_int k * q - x\<bar> = \<bar>of_int k - x / q\<bar> * q"
    using q0 by (simp add: abs_mult[symmetric] field_simps del: abs_mult)
  also have "\<dots> \<le> (1 / 2) * q" using err q0 by (simp only: mult_le_cancel_right_pos)
  finally have e1: "\<bar>round64 x - x\<bar> \<le> q / 2" by (simp add: r)
  have "q \<le> x * 2 powi (- 52) \<or> e - 52 = - 1074"
  proof (cases "ilog2 x \<le> - 1022")
    case True
    then show ?thesis by (simp add: e_def ax)
  next
    case False
    then have "e = ilog2 x" by (simp add: e_def ax)
    then have "2 powi e \<le> x" using ilog2_lower[OF assms] by simp
    moreover have "(2::rat) powi e = q * 2 powi 52" 
    proof -
      have "e = (e - 52) + 52" by simp
      then have "(2::rat) powi e = 2 powi ((e - 52) + 52)" by (rule arg_cong)
      also have "\<dots> = 2 powi (e - 52) * 2 powi 52" by (rule powi_add)
      finally show ?thesis by (simp add: q_def)
    qed
    ultimately have "q * 2 powi 52 \<le> x" by simp
    then have "q \<le> x * 2 powi (- 52)" by (simp add: power_int_minus field_simps)
    then show ?thesis ..
  qed
  moreover have "- 1074 \<le> e - 52" by (simp add: e_def)
  ultimately show ?thesis using r kb e1 unfolding q_def
    by (intro exI[of _ k] exI[of _ "e - 52"]) auto
qed

subsection \<open>The number of dashes\<close>

lemma fl_exact:
  assumes "x = of_int k * 2 powi j" "\<bar>k\<bar> < 2 ^ 53" "- 1074 \<le> j" "\<bar>x\<bar> < 2 ^ 1024"
  shows "fl x = Some x"
  using round64_exact[OF assms(1-3)] assms(4) by (simp add: fl_def)

lemma float_of_int_small:
  assumes "\<bar>p\<bar> < 2 ^ 53"
  shows "float_of_int p = Inr (of_int p)"
proof -
  note assms
  moreover have "\<bar>of_int p :: rat\<bar> < 2 ^ 1024"
  proof -
    have "\<bar>p\<bar> < 2 ^ 1024" using assms by simp
    then have "(of_int \<bar>p\<bar> :: rat) < of_int (2 ^ 1024)" by (simp only: of_int_less_iff)
    then show ?thesis by simp
  qed
  ultimately have "fl (of_int p) = Some (of_int p)"
    by (intro fl_exact[of _ p 0]) simp_all
  then show ?thesis by (simp add: float_of_int_def)
qed

text \<open>The quotient perc / 10 in binary64: close to the exact value, and on a grid
  that multiplying by 4 stays on.\<close>

lemma div10_rounded:
  assumes p: "0 < p" "p < 2 ^ 52"
  shows "\<exists>r. fl (of_int p / 10) = Some r \<and> fl (r * 4) = Some (r * 4)
            \<and> \<bar>r - of_int p / 10\<bar> < 1 / 20 \<and> 0 \<le> r"
proof -
  define x :: rat where "x = of_int p / 10"
  have x0: "0 < x" using p by (simp add: x_def)
  have "(of_int p :: rat) < of_int (2 ^ 52)" using p by (simp only: of_int_less_iff)
  then have xu: "x < 2 ^ 52 / 10" by (simp add: x_def)
  obtain k j where r: "round64 x = of_int k * 2 powi j" and k: "0 \<le> k" "k \<le> 2 ^ 53"
    and j: "- 1074 \<le> j" and err: "\<bar>round64 x - x\<bar> \<le> 2 powi j / 2"
    and q: "2 powi j \<le> x * 2 powi (- 52) \<or> j = - 1074"
    using round64_grid[OF x0] by blast
  have qb: "(2::rat) powi j < 1 / 10"
  proof -
    from q show ?thesis
    proof
      assume "2 powi j \<le> x * 2 powi (- 52)"
      also have "\<dots> < (2 ^ 52 / 10) * 2 powi (- 52)"
        using xu powi_pos[of "- 52"] by (simp only: mult_less_cancel_right_pos)
      also have "\<dots> = 1 / 10" by (simp add: power_int_minus)
      finally show ?thesis .
    next
      assume "j = - 1074"
      moreover have "(2::rat) powi (- 1074) \<le> 2 powi (- 4)"
        by (rule power_int_increasing) simp_all
      moreover have "(2::rat) powi (- 4) < 1 / 10" by (simp add: power_int_minus)
      ultimately show ?thesis by simp
    qed
  qed
  have e20: "\<bar>round64 x - x\<bar> < 1 / 20" using err qb by linarith
  have r0: "0 \<le> round64 x" using r k powi_pos[of j] by simp
  have one52: "1 \<le> (2::rat) ^ 52" by simp
  have r52: "round64 x < 2 ^ 52" using e20 xu one52 by linarith
  have fin: "\<bar>round64 x\<bar> < 2 ^ 1024"
  proof -
    note r52
    also have "(2::rat) ^ 52 < 2 ^ 1024" by simp
    finally show ?thesis using r0 by simp
  qed
  have fin4: "\<bar>round64 x * 4\<bar> < 2 ^ 1024"
  proof -
    have "round64 x * 4 < 2 ^ 52 * 4" using r52 by simp
    also have "(2::rat) ^ 52 * 4 < 2 ^ 1024" by simp
    finally show ?thesis using r0 by simp
  qed
  have "fl (round64 x * 4) = Some (round64 x * 4)"
  proof (cases "k = 2 ^ 53")
    case True
    then have "round64 x * 4 = of_int (2 ^ 52) * 2 powi (j + 3)"
      by (simp add: r powi_add[of j 3])
    then show ?thesis using fin4 j
      by (intro fl_exact[of _ "2 ^ 52" "j + 3"]) simp_all
  next
    case False
    then have "\<bar>k\<bar> < 2 ^ 53" using k by simp
    moreover have "round64 x * 4 = of_int k * 2 powi (j + 2)"
      by (simp add: r powi_add[of j 2])
    ultimately show ?thesis using fin4 j
      by (intro fl_exact[of _ k "j + 2"]) simp_all
  qed
  moreover have "fl x = Some (round64 x)" using fin by (simp add: fl_def)
  ultimately show ?thesis using e20 r0 unfolding x_def by blast
qed

lemma div10_exact:
  assumes "\<bar>m\<bar> < 2 ^ 52"
  shows "fl (of_int (5 * m) / 10) = Some (of_int m / 2)"
proof -
  have a: "\<bar>m\<bar> < 2 ^ 53" using assms by simp
  have "\<bar>m\<bar> < 2 ^ 1024" using assms by simp
  then have "(of_int \<bar>m\<bar> :: rat) < of_int (2 ^ 1024)" by (simp only: of_int_less_iff)
  then have b: "\<bar>of_int m / 2 :: rat\<bar> < 2 ^ 1024" by simp
  have "fl (of_int m / 2) = Some (of_int m / 2)"
    using a b by (intro fl_exact[of _ m "- 1"]) (simp_all add: power_int_minus)
  then show ?thesis by simp
qed


lemma int_of_float_of_int: "int_of_float (of_int k) = k"
  by (simp add: int_of_float_def)

lemma dashes_count:
  assumes p: "0 \<le> p" "p < 2 ^ 52"
  shows "\<exists>g h. fl (of_int p / 10) = Some g \<and> fl (g * 4) = Some h
            \<and> int_of_float h = 4 * p div 10"
proof (cases "p mod 5 = 0")
  case True
  then obtain m where m: "p = 5 * m" by auto
  have mb: "0 \<le> m" "m < 2 ^ 52" using p m by simp_all
  have g: "fl (of_int p / 10) = Some (of_int m / 2)"
    unfolding m using mb by (intro div10_exact) simp
  have "\<bar>2 * m\<bar> < 2 ^ 1024" using mb by simp
  then have "(of_int \<bar>2 * m\<bar> :: rat) < of_int (2 ^ 1024)" by (simp only: of_int_less_iff)
  then have fin: "\<bar>of_int (2 * m) :: rat\<bar> < 2 ^ 1024" by simp
  have "fl (of_int (2 * m)) = Some (of_int (2 * m))"
    using mb fin by (intro fl_exact[of _ "2 * m" 0]) simp_all
  then have h: "fl (of_int m / 2 * 4) = Some (of_int (2 * m))" by simp
  have "int_of_float (of_int (2 * m)) = 2 * m" by (rule int_of_float_of_int)
  also have "2 * m = 4 * p div 10" by (simp add: m)
  finally have "int_of_float (of_int (2 * m)) = 4 * p div 10" .
  with g h show ?thesis by blast
next
  case False
  then have p0: "0 < p" using p by (cases "p = 0") simp_all
  obtain r where g: "fl (of_int p / 10) = Some r" and h: "fl (r * 4) = Some (r * 4)"
    and err: "\<bar>r - of_int p / 10\<bar> < 1 / 20" and r0: "0 \<le> r"
    using div10_rounded[OF p0 p(2)] by blast
  define n where "n = 2 * p div 5"
  define m where "m = 2 * p mod 5"
  have m14: "1 \<le> m" "m \<le> 4" using False unfolding m_def by presburger+
  have "2 * p = 5 * n + m" by (simp add: n_def m_def)
  then have "(of_int (2 * p) :: rat) = of_int (5 * n + m)" by simp
  then have x: "(of_int p :: rat) / 10 * 4 = of_int n + of_int m / 5" by simp
  have mr: "(1::rat) \<le> of_int m" "(of_int m :: rat) \<le> 4"
    using m14 by simp_all
  have "of_int n < r * 4" "r * 4 < of_int n + 1" using x err mr by linarith+
  then have "\<lfloor>r * 4\<rfloor> = n" by (simp add: floor_unique)
  moreover have "n = 4 * p div 10"
  proof -
    have "4 * p div 10 = (2 * (2 * p)) div (2 * 5)" by simp
    also have "\<dots> = 2 * p div 5" by (rule div_mult_mult1) simp
    finally show ?thesis by (simp add: n_def)
  qed
  ultimately have "int_of_float (r * 4) = 4 * p div 10" using r0 by (simp add: int_of_float_def)
  with g h show ?thesis by blast
qed

lemma get_dashes_value:
  assumes p: "0 \<le> p" "p < 2 ^ 52"
  shows "get_dashes p = Inr (replicate (nat (4 * p div 10)) CHR ''='',
                             replicate (nat (40 - 4 * p div 10)) CHR '' '')"
proof -
  obtain g h where g: "fl (of_int p / 10) = Some g" and h: "fl (g * 4) = Some h"
    and n: "int_of_float h = 4 * p div 10"
    using dashes_count[OF p] by blast
  have f: "float_of_int p = Inr (of_int p)" using p by (intro float_of_int_small) simp
  have n0: "0 \<le> 4 * p div 10" using p by simp
  have "4 * p div 10 < 2 ^ 52" using p by simp
  then have n63: "\<not> 2 ^ 63 \<le> 4 * p div 10" by simp
  have e63: "\<not> (2::int) ^ 63 \<le> 40 - 4 * p div 10" using n0 by simp
  show ?thesis using n0 n63 e63
    by (simp add: get_dashes_def f g h n str_repeat_def)
qed

lemma floor_bar: "\<lfloor>(of_int p :: rat) / 10 * 4\<rfloor> = 4 * p div 10"
proof -
  have "(of_int p :: rat) / 10 * 4 = of_int (4 * p) / of_int 10" by simp
  then show ?thesis by (simp only: floor_divide_of_int_eq)
qed

lemma ilog2_unique:
  assumes "2 powi e \<le> x" "x < 2 powi (e + 1)"
  shows "ilog2 x = e"
proof -
  have x: "0 < x" using assms(1) powi_pos[of e] by linarith
  have "2 powi (ilog2 x) < (2::rat) powi (e + 1)"
    using ilog2_lower[OF x] assms(2) by linarith
  then have "ilog2 x < e + 1" by (simp only: powi_less_iff)
  moreover have "2 powi e < (2::rat) powi (ilog2 x + 1)"
    using ilog2_upper[OF x] assms(1) by linarith
  then have "e < ilog2 x + 1" by (simp only: powi_less_iff)
  ultimately show ?thesis by simp
qed

lemma floor_rat_numeral:
  "\<lfloor>(numeral a :: rat) / numeral b\<rfloor> = numeral a div numeral b"
  using floor_divide_of_int_eq[of "numeral a" "numeral b", where ?'a = rat] by simp

lemma fl_600000000000000_2: "fl (6000000000000002 / 10) = Some (2400000000000001 / 4)"
proof -
  have "ilog2 (6000000000000002 / 10) = 49"
    by (rule ilog2_unique) simp_all
  then have "round64 (6000000000000002 / 10) = 2400000000000001 / 4"
    by (simp add: round64_def round_half_even_def Let_def floor_rat_numeral)
  then show ?thesis by (simp add: fl_def)
qed

lemma get_dashes_beyond_2_52:
  "\<exists>dashes. get_dashes 6000000000000002 = Inr (dashes, [])
     \<and> int (length dashes) = 2400000000000001
     \<and> \<lfloor>(of_int 6000000000000002 :: rat) / 10 * 4\<rfloor> = 2400000000000000"
proof -
  have a: "float_of_int 6000000000000002 = Inr (of_int 6000000000000002)"
    by (rule float_of_int_small) simp
  have b: "fl (3000000000000001 / 5) = Some (2400000000000001 / 4)"
    using fl_600000000000000_2 by simp
  have c: "fl 2400000000000001 = Some 2400000000000001"
    by (rule fl_exact[of _ 2400000000000001 0]) simp_all
  have d: "int_of_float 2400000000000001 = 2400000000000001"
    using int_of_float_of_int[of 2400000000000001] by simp
  have e: "\<lfloor>(of_int 6000000000000002 :: rat) / 10 * 4\<rfloor> = 2400000000000000"
    using floor_bar[of 6000000000000002] by simp
  have "\<exists>dashes. get_dashes 6000000000000002 = Inr (dashes, [])
          \<and> int (length dashes) = 2400000000000001"
    using a by (simp add: get_dashes_def b c d str_repeat_def)
  with e show ?thesis by blast
qed

section \<open>The bar of a percentage\<close>

text \<open>
  Claim C1. For every percentage \<open>p\<close> from 0 to 100, the bar that \<^verbatim>\<open>get_dashes\<close> returns
  has \<open>\<lfloor>p / 10 \<times> 4\<rfloor>\<close> filled characters, and its filled and empty characters
  together are exactly 40. The percentages are Python ints, as the statistics source
  reports them; the floor is taken of the exact quotient.
\<close>

theorem get_dashes_fixed_width:
  assumes "0 \<le> p" "p \<le> 100"
  shows "\<exists>dashes empty_dashes. get_dashes p = Inr (dashes, empty_dashes)
     \<and> dashes = replicate (length dashes) CHR ''=''
     \<and> empty_dashes = replicate (length empty_dashes) CHR '' ''
     \<and> int (length dashes) = \<lfloor>(of_int p :: rat) / 10 * 4\<rfloor>
     \<and> length dashes + length empty_dashes = 40"
proof -
  define n where "n = 4 * p div 10"
  have "p < 2 ^ 52" using assms by simp
  then have v: "get_dashes p = Inr (replicate (nat n) CHR ''='', replicate (nat (40 - n)) CHR '' '')"
    unfolding n_def using assms(1) by (rule get_dashes_value[rotated])
  have f: "\<lfloor>(of_int p :: rat) / 10 * 4\<rfloor> = n" unfolding n_def by (rule floor_bar)
  have b: "0 \<le> n" "n \<le> 40" using assms by (simp_all add: n_def)
  show ?thesis unfolding v f using b by simp
qed

text \<open>At 64 percent the bar has 25 filled and 15 empty characters.\<close>

theorem get_dashes_fixed_width_witness:
  "get_dashes 64 = Inr (replicate 25 CHR ''='', replicate 15 CHR '' '')"
proof -
  obtain d e where g: "get_dashes 64 = Inr (d, e)"
    and d: "d = replicate (length d) CHR ''=''" and e: "e = replicate (length e) CHR '' ''"
    and n: "int (length d) = \<lfloor>(of_int 64 :: rat) / 10 * 4\<rfloor>" and t: "length d + length e = 40"
    using get_dashes_fixed_width[of 64] by auto
  have "\<lfloor>(of_int 64 :: rat) / 10 * 4\<rfloor> = 4 * 64 div 10" by (rule floor_bar)
  then have "int (length d) = 25" using n by simp
  then have "length d = 25" by simp
  moreover from this have "length e = 15" using t by simp
  ultimately show ?thesis using g d e by simp
qed




section \<open>The comma-grouped byte counts\<close>

lemma of_char_digit_char: "d < 10 \<Longrightarrow> (of_char (digit_char d) :: nat) = 48 + d"
  by (simp add: digit_char_def)

lemma is_digit_digit_char: "d < 10 \<Longrightarrow> is_digit (digit_char d)"
  by (simp add: is_digit_def of_char_digit_char)

lemma digit_val_digit_char: "d < 10 \<Longrightarrow> digit_val (digit_char d) = d"
  by (simp add: digit_val_def of_char_digit_char)

lemma is_digit_not_special:
  assumes "is_digit c"
  shows "c \<noteq> CHR '',''" "c \<noteq> CHR ''-''" "c \<noteq> CHR ''+''" "\<not> is_space c"
  using assms by (auto simp: is_digit_def is_space_def)

lemma str_nat_digits: "\<forall>c\<in>set (str_nat n). is_digit c"
proof (induction n rule: str_nat.induct)
  case (1 n)
  show ?case
  proof (cases "n < 10")
    case True
    then show ?thesis by (subst str_nat.simps) (simp add: is_digit_digit_char)
  next
    case False
    then have "\<forall>c\<in>set (str_nat (n div 10)). is_digit c" using "1" by simp
    moreover have "is_digit (digit_char (n mod 10))" by (rule is_digit_digit_char) simp
    ultimately show ?thesis using False by (subst str_nat.simps) auto
  qed
qed

lemma str_nat_nonempty: "str_nat n \<noteq> []"
  by (subst str_nat.simps) simp

lemma parse_digits_snoc:
  "parse_digits acc (cs @ [c]) =
     (case parse_digits acc cs of
        None \<Rightarrow> None
      | Some a \<Rightarrow> if is_digit c then Some (10 * a + digit_val c) else None)"
  by (induction cs arbitrary: acc) simp_all

lemma parse_digits_str_nat: "parse_digits 0 (str_nat n) = Some n"
proof (induction n rule: str_nat.induct)
  case (1 n)
  show ?case
  proof (cases "n < 10")
    case True
    then show ?thesis by (subst str_nat.simps) (simp add: is_digit_digit_char digit_val_digit_char)
  next
    case False
    then have ih: "parse_digits 0 (str_nat (n div 10)) = Some (n div 10)" using "1" by simp
    have d: "n mod 10 < 10" by simp
    have "str_nat n = str_nat (n div 10) @ [digit_char (n mod 10)]"
      using False by (subst str_nat.simps) simp
    then show ?thesis
      by (simp add: parse_digits_snoc ih is_digit_digit_char[OF d] digit_val_digit_char[OF d])
  qed
qed

lemma filter_group3: "filter (\<lambda>c. c \<noteq> CHR '','') (group3 ds) = filter (\<lambda>c. c \<noteq> CHR '','') ds"
  by (induction ds rule: group3.induct) simp_all

lemma strip_commas_grouped:
  assumes "\<forall>c\<in>set ds. is_digit c"
  shows "strip_commas (rev (group3 (rev ds))) = ds"
proof -
  have "\<forall>c\<in>set ds. c \<noteq> CHR '',''" using assms is_digit_not_special(1) by blast
  then have "filter (\<lambda>c. c \<noteq> CHR '','') ds = ds" by (simp add: filter_id_conv)
  then show ?thesis by (simp add: strip_commas_def filter_group3 rev_filter[symmetric] del: rev_filter)
qed

lemma strip_commas_spaces:
  "strip_commas (replicate k CHR '' '' @ s) = replicate k CHR '' '' @ strip_commas s"
  by (simp add: strip_commas_def)

lemma py_strip_padded:
  assumes "\<forall>c\<in>set ds. is_digit c"
  shows "py_strip (replicate k CHR '' '' @ ds) = ds"
proof -
  have ns: "\<forall>c\<in>set ds. \<not> is_space c" using assms is_digit_not_special(4) by blast
  have sp: "is_space CHR '' ''" by (simp add: is_space_def)
  have a: "dropWhile is_space (replicate k CHR '' '' @ ds) = dropWhile is_space ds"
    using sp by (induction k) simp_all
  have b: "dropWhile is_space xs = xs" if "\<forall>c\<in>set xs. \<not> is_space c" for xs
    using that by (cases xs) simp_all
  show ?thesis using ns by (simp add: py_strip_def a b)
qed

lemma parse_int_padded_digits:
  assumes "\<forall>c\<in>set ds. is_digit c" "ds \<noteq> []"
  shows "parse_int (replicate k CHR '' '' @ ds) = map_option int (parse_digits 0 ds)"
proof -
  obtain c cs where ds: "ds = c # cs" using assms(2) by (cases ds) auto
  then have "is_digit c" using assms(1) by simp
  then have "c \<noteq> CHR ''-''" "c \<noteq> CHR ''+''" using is_digit_not_special by blast+
  then show ?thesis
    using py_strip_padded[OF assms(1), of k] by (simp add: parse_int_def ds parse_nat_def)
qed

lemma digit_char_conj:
  "digit_char 0 = CHR ''0'' \<and> digit_char 1 = CHR ''1'' \<and> digit_char 2 = CHR ''2''
   \<and> digit_char 3 = CHR ''3'' \<and> digit_char 4 = CHR ''4'' \<and> digit_char 5 = CHR ''5''
   \<and> digit_char 6 = CHR ''6'' \<and> digit_char 7 = CHR ''7'' \<and> digit_char 8 = CHR ''8''
   \<and> digit_char 9 = CHR ''9''"
  by code_simp

lemma digit_char_numeral:
  "digit_char 0 = CHR ''0''" "digit_char 1 = CHR ''1''" "digit_char 2 = CHR ''2''"
  "digit_char 3 = CHR ''3''" "digit_char 4 = CHR ''4''" "digit_char 5 = CHR ''5''"
  "digit_char 6 = CHR ''6''" "digit_char 7 = CHR ''7''" "digit_char 8 = CHR ''8''"
  "digit_char 9 = CHR ''9''" "digit_char (Suc 0) = CHR ''1''"
  using digit_char_conj by simp_all

lemmas str_eval = str_nat.simps digit_char_numeral str_int_def format_comma_def rjust_def

lemma format_comma_8406668388: "format_comma 8406668388 = ''8,406,668,388''"
  by (simp add: str_eval)

text \<open>
  Claim C9. For every non-negative byte counter, removing the commas from its
  comma-grouped rendering and parsing the rest as an integer gives the counter back.
  This holds for the bare rendering and for the rendering as \<^verbatim>\<open>refresh_window\<close> prints
  it, right-justified in six columns.
\<close>

theorem comma_rendering_round_trip:
  assumes "0 \<le> n"
  shows "parse_int (strip_commas (format_comma n)) = Some n
       \<and> parse_int (strip_commas (rjust 6 (format_comma n))) = Some n"
proof -
  define ds where "ds = str_nat (nat n)"
  have dg: "\<forall>c\<in>set ds. is_digit c" unfolding ds_def by (rule str_nat_digits)
  have ne: "ds \<noteq> []" unfolding ds_def by (rule str_nat_nonempty)
  have fc: "format_comma n = rev (group3 (rev ds))" using assms by (simp add: format_comma_def ds_def)
  have sc: "strip_commas (format_comma n) = ds" unfolding fc by (rule strip_commas_grouped[OF dg])
  have pd: "map_option int (parse_digits 0 ds) = Some n"
    using assms by (simp add: ds_def parse_digits_str_nat)
  have "parse_int (replicate 0 CHR '' '' @ ds) = Some n"
    unfolding parse_int_padded_digits[OF dg ne] by (rule pd)
  then have a: "parse_int (strip_commas (format_comma n)) = Some n" by (simp add: sc)
  have "parse_int (strip_commas (rjust 6 (format_comma n)))
          = parse_int (replicate (6 - length (format_comma n)) CHR '' '' @ ds)"
    by (simp add: rjust_def strip_commas_spaces sc)
  also have "\<dots> = Some n" unfolding parse_int_padded_digits[OF dg ne] by (rule pd)
  finally show ?thesis using a by simp
qed

text \<open>The counters 8406668388, 0 and 1234.\<close>

theorem comma_rendering_round_trip_witness:
  "format_comma 8406668388 = ''8,406,668,388''
   \<and> parse_int (strip_commas ''8,406,668,388'') = Some 8406668388
   \<and> parse_int (strip_commas (format_comma 0)) = Some 0
   \<and> parse_int (strip_commas (rjust 6 (format_comma 1234))) = Some 1234"
  using comma_rendering_round_trip[of 8406668388] comma_rendering_round_trip[of 0]
    comma_rendering_round_trip[of 1234] format_comma_8406668388
  by simp

end
